theory Spec2Isabelle
  imports Complex_Main "HOL-Library.Word"
begin

section \<open>The orders administration page (src/app/orders/page.tsx)\<close>

text \<open>
  The page is one React component, \<^verbatim>\<open>AdminOrdersPage\<close>, holding five pieces of state
  and a handful of event handlers that talk to a remote document store. Each handler is
  embedded as a function from the state at the time it runs (and from what the
  environment answers: the store's reply, the confirmation dialog, the clock) to the
  effects it issues and the state it leaves.
\<close>

subsection \<open>JavaScript strings\<close>

text \<open>
  A JavaScript string is a sequence of UTF-16 code units. \<open>utf16\<close> writes an ASCII
  literal as such a sequence.
\<close>

type_synonym jsstring = "16 word list"

definition utf16 :: "string \<Rightarrow> jsstring" where
  "utf16 s = map of_char s"

definition comma :: "16 word" where
  "comma = 0x2C"

text \<open>
  \<^verbatim>\<open>String.prototype.trim\<close> removes, at both ends, the code units ECMAScript calls
  WhiteSpace (TAB, VT, FF, ZWNBSP and the Unicode space separators) or LineTerminator
  (LF, CR, LS, PS).
\<close>

definition isWhiteSpace :: "16 word \<Rightarrow> bool" where
  "isWhiteSpace c \<longleftrightarrow>
     c \<in> {0x0009, 0x000A, 0x000B, 0x000C, 0x000D, 0x0020, 0x00A0, 0x1680,
          0x2028, 0x2029, 0x202F, 0x205F, 0x3000, 0xFEFF}
     \<or> (0x2000 \<le> c \<and> c \<le> 0x200A)"

definition trim :: "jsstring \<Rightarrow> jsstring" where
  "trim s = rev (dropWhile isWhiteSpace (rev (dropWhile isWhiteSpace s)))"

text \<open>
  \<^verbatim>\<open>s.split(",")\<close>, for a separator of one code unit: scan to the next separator, emit the
  piece before it, go on behind it; the piece after the last separator is emitted too
  (so the empty string gives one empty piece).
\<close>

function js_split :: "'a \<Rightarrow> 'a list \<Rightarrow> 'a list list" where
  "js_split sep s =
     (case dropWhile (\<lambda>c. c \<noteq> sep) s of
        [] \<Rightarrow> [takeWhile (\<lambda>c. c \<noteq> sep) s]
      | _ # rest \<Rightarrow> takeWhile (\<lambda>c. c \<noteq> sep) s # js_split sep rest)"
  by pat_completeness auto
termination
proof (relation "measure (\<lambda>(sep, s). length s)")
  fix sep :: 'a and s x rest
  assume "dropWhile (\<lambda>c. c \<noteq> sep) s = x # rest"
  moreover have "length (dropWhile (\<lambda>c. c \<noteq> sep) s) \<le> length s"
    by (rule length_dropWhile_le)
  ultimately show "((sep, rest), (sep, s)) \<in> measure (\<lambda>(sep, s). length s)"
    by simp
qed simp

declare js_split.simps [simp del]

text \<open>\<^verbatim>\<open>xs.join(sep)\<close>: the elements with the separator between neighbours.\<close>

fun js_join :: "'a list \<Rightarrow> 'a list list \<Rightarrow> 'a list" where
  "js_join sep [] = []"
| "js_join sep [x] = x"
| "js_join sep (x # y # ys) = x @ sep @ js_join sep (y # ys)"

text \<open>A string (or a missing one) used as a condition: \<^verbatim>\<open>undefined\<close> and \<^verbatim>\<open>""\<close> are falsy.\<close>

definition truthy :: "jsstring option \<Rightarrow> bool" where
  "truthy v = (case v of None \<Rightarrow> False | Some s \<Rightarrow> s \<noteq> [])"

subsection \<open>Data model (lines 7-39)\<close>

text \<open>\<^verbatim>\<open>interface Order\<close>; the field \<^verbatim>\<open>_id\<close> is \<open>order_id\<close>.\<close>

record Order =
  order_id :: jsstring
  fullName :: jsstring
  email :: jsstring
  phone :: jsstring
  address :: jsstring
  city :: jsstring
  postalCode :: jsstring
  country :: jsstring
  paymentMethod :: jsstring
  paymentStatus :: jsstring
  amount :: real
  createdAt :: jsstring
  cartItems :: "jsstring list"

text \<open>
  \<^verbatim>\<open>type OrderInput\<close>: every field optional, \<open>None\<close> for a field that is not set; the
  cart items are one comma-separated string. Field names carry the suffix \<open>_in\<close>.
\<close>

record OrderInput =
  id_in :: "jsstring option"
  fullName_in :: "jsstring option"
  email_in :: "jsstring option"
  phone_in :: "jsstring option"
  address_in :: "jsstring option"
  city_in :: "jsstring option"
  postalCode_in :: "jsstring option"
  country_in :: "jsstring option"
  paymentMethod_in :: "jsstring option"
  paymentStatus_in :: "jsstring option"
  amount_in :: "real option"
  createdAt_in :: "jsstring option"
  cartItems_in :: "jsstring option"

text \<open>The empty object \<^verbatim>\<open>{}\<close> as a form state.\<close>

definition emptyForm :: OrderInput where
  "emptyForm = \<lparr>id_in = None, fullName_in = None, email_in = None, phone_in = None,
     address_in = None, city_in = None, postalCode_in = None, country_in = None,
     paymentMethod_in = None, paymentStatus_in = None, amount_in = None,
     createdAt_in = None, cartItems_in = None\<rparr>"

text \<open>The component's state: the five \<^verbatim>\<open>useState\<close> cells of lines 42-46.\<close>

record page =
  orders :: "Order list"
  loading :: bool
  editingOrder :: "Order option"
  showAddForm :: bool
  formState :: OrderInput

definition initial :: page where
  "initial = \<lparr>orders = [], loading = False, editingOrder = None, showAddForm = False,
     formState = emptyForm\<rparr>"

subsection \<open>The store and the other effects\<close>

text \<open>
  The object handed to \<^verbatim>\<open>patch(...).set\<close> (lines 131-134) is the form state spread, with
  \<^verbatim>\<open>cartItems\<close> overridden by the converted array; the object handed to \<^verbatim>\<open>create\<close>
  (lines 172-177) has the type tag, the form state spread, and \<^verbatim>\<open>cartItems\<close> and
  \<^verbatim>\<open>createdAt\<close> overridden.
\<close>

record UpdateData =
  ud_form :: OrderInput
  ud_cartItems :: "jsstring list"

record CreateData =
  cd_type :: string
  cd_form :: OrderInput
  cd_cartItems :: "jsstring list"
  cd_createdAt :: jsstring

text \<open>A promise of the store client either rejects or resolves with a value.\<close>

datatype 'a reply = Rejected | Resolved 'a

datatype effect =
    PreventDefault
  | ConsoleError
  | Alert string
  | Confirm string
  | ScrollToTop
  | StoreFetch
  | StoreDelete jsstring
  | StorePatch jsstring UpdateData
  | StoreCreate CreateData

fun is_store_call :: "effect \<Rightarrow> bool" where
  "is_store_call StoreFetch = True"
| "is_store_call (StoreDelete _) = True"
| "is_store_call (StorePatch _ _) = True"
| "is_store_call (StoreCreate _) = True"
| "is_store_call _ = False"

fun is_alert :: "effect \<Rightarrow> bool" where
  "is_alert (Alert _) = True"
| "is_alert _ = False"

subsection \<open>The cart-items conversion (lines 128-130 and 167-169)\<close>

definition cartItemsArray :: "OrderInput \<Rightarrow> jsstring list" where
  "cartItemsArray fs =
     (if truthy (cartItems_in fs)
      then map trim (js_split comma (the (cartItems_in fs)))
      else [])"

subsection \<open>Synchronous handlers\<close>

text \<open>\<^verbatim>\<open>handleCancel\<close> (lines 116-120).\<close>

definition handleCancel :: "page \<Rightarrow> page" where
  "handleCancel st = st\<lparr>editingOrder := None, showAddForm := False, formState := emptyForm\<rparr>"

text \<open>\<^verbatim>\<open>handleEditClick\<close> (lines 94-113).\<close>

definition handleEditClick :: "Order \<Rightarrow> page \<Rightarrow> effect list \<times> page" where
  "handleEditClick order st =
     ([ScrollToTop],
      st\<lparr>editingOrder := Some order,
         formState :=
           \<lparr>id_in = Some (order_id order),
            fullName_in = Some (fullName order),
            email_in = Some (email order),
            phone_in = Some (phone order),
            address_in = Some (address order),
            city_in = Some (city order),
            postalCode_in = Some (postalCode order),
            country_in = Some (country order),
            paymentMethod_in = Some (paymentMethod order),
            paymentStatus_in = Some (paymentStatus order),
            amount_in = Some (amount order),
            createdAt_in = Some (createdAt order),
            cartItems_in = Some (js_join (utf16 '', '') (cartItems order))\<rparr>,
         showAddForm := False\<rparr>)"

text \<open>The click handler of the "Add New Order" button (lines 229-234).\<close>

definition onClickAddNew :: "page \<Rightarrow> effect list \<times> page" where
  "onClickAddNew st =
     ([ScrollToTop], st\<lparr>showAddForm := True, editingOrder := None, formState := emptyForm\<rparr>)"

text \<open>
  \<^verbatim>\<open>handleFormChange\<close> (lines 202-214) only calls \<^verbatim>\<open>setFormState\<close> with a function of
  the previous form state; \<open>upd\<close> is that function
  (\<^verbatim>\<open>prev => ({...prev, [name]: ...})\<close>).
\<close>

definition handleFormChange :: "(OrderInput \<Rightarrow> OrderInput) \<Rightarrow> page \<Rightarrow> page" where
  "handleFormChange upd st = st\<lparr>formState := upd (formState st)\<rparr>"

subsection \<open>Asynchronous handlers\<close>

text \<open>
  An \<^verbatim>\<open>async\<close> handler runs up to its \<^verbatim>\<open>await\<close>, and the rest runs when the store has
  answered. The rest is a function of its own (\<open>_settle\<close>): it sees the values the
  handler captured before the \<^verbatim>\<open>await\<close>, the store's reply, and the state of that later
  moment, since \<^verbatim>\<open>setOrders\<close> is given a function of \<^verbatim>\<open>prev\<close> and the other setters are
  given constants. The handler as a whole, with nothing happening in between, is the
  composition.
\<close>

text \<open>\<^verbatim>\<open>fetchOrders\<close> (lines 49-74).\<close>

definition fetchOrders_settle :: "Order list reply \<Rightarrow> page \<Rightarrow> effect list \<times> page" where
  "fetchOrders_settle r st =
     (case r of
        Resolved data \<Rightarrow> ([], st\<lparr>orders := data, loading := False\<rparr>)
      | Rejected \<Rightarrow> ([ConsoleError], st\<lparr>loading := False\<rparr>))"

definition fetchOrders :: "Order list reply \<Rightarrow> page \<Rightarrow> effect list \<times> page" where
  "fetchOrders r st =
     (let (es, st') = fetchOrders_settle r (st\<lparr>loading := True\<rparr>)
      in (StoreFetch # es, st'))"

text \<open>
  \<^verbatim>\<open>handleDelete\<close> (lines 81-91), its parameter \<^verbatim>\<open>id\<close> written \<open>id'\<close>; \<open>confirmed\<close> is what \<^verbatim>\<open>confirm(...)\<close> returns.
\<close>

definition handleDelete_settle :: "jsstring \<Rightarrow> unit reply \<Rightarrow> page \<Rightarrow> effect list \<times> page" where
  "handleDelete_settle id' r st =
     (case r of
        Resolved _ \<Rightarrow> ([], st\<lparr>orders := filter (\<lambda>order. order_id order \<noteq> id') (orders st)\<rparr>)
      | Rejected \<Rightarrow> ([ConsoleError, Alert ''Failed to delete order''], st))"

definition handleDelete :: "jsstring \<Rightarrow> bool \<Rightarrow> unit reply \<Rightarrow> page \<Rightarrow> effect list \<times> page" where
  "handleDelete id' confirmed r st =
     (if confirmed
      then (let (es, st') = handleDelete_settle id' r st
            in (Confirm ''Are you sure you want to delete this order?'' # StoreDelete id' # es, st'))
      else ([Confirm ''Are you sure you want to delete this order?''], st))"

text \<open>
  \<^verbatim>\<open>handleUpdate\<close> (lines 123-160). The store resolves with the updated document, from
  which lines 136-150 copy the thirteen fields of an \<open>Order\<close>; \<open>eid\<close> is the captured
  \<^verbatim>\<open>editingOrder._id\<close>.
\<close>

definition handleUpdate_settle :: "jsstring \<Rightarrow> Order reply \<Rightarrow> page \<Rightarrow> effect list \<times> page" where
  "handleUpdate_settle eid r st =
     (case r of
        Resolved updatedOrder \<Rightarrow>
          ([], handleCancel
                 (st\<lparr>orders := map (\<lambda>ord. if order_id ord = eid then updatedOrder else ord)
                                   (orders st)\<rparr>))
      | Rejected \<Rightarrow> ([ConsoleError, Alert ''Failed to update order''], st))"

definition handleUpdate :: "Order reply \<Rightarrow> page \<Rightarrow> effect list \<times> page" where
  "handleUpdate r st =
     (case editingOrder st of
        None \<Rightarrow> ([PreventDefault], st)
      | Some eo \<Rightarrow>
          if order_id eo \<noteq> []
          then (let updateData = \<lparr>ud_form = formState st,
                                   ud_cartItems = cartItemsArray (formState st)\<rparr>;
                    (es, st') = handleUpdate_settle (order_id eo) r st
                in (PreventDefault # StorePatch (order_id eo) updateData # es, st'))
          else ([PreventDefault], st))"

text \<open>
  \<^verbatim>\<open>handleAddNew\<close> (lines 163-199). The handler is entered at instant \<open>t0\<close> (milliseconds
  since the epoch); \<^verbatim>\<open>new Date()\<close> on line 171 reads the clock \<open>d\<close> milliseconds later;
  \<open>toISOString\<close> is the formatting \<^verbatim>\<open>Date.prototype.toISOString\<close> does.
\<close>

definition createdAt_default :: "(nat \<Rightarrow> jsstring) \<Rightarrow> nat \<Rightarrow> nat \<Rightarrow> OrderInput \<Rightarrow> jsstring" where
  "createdAt_default toISOString t0 d fs =
     (if truthy (createdAt_in fs) then the (createdAt_in fs) else toISOString (t0 + d))"

definition handleAddNew_settle :: "Order reply \<Rightarrow> page \<Rightarrow> effect list \<times> page" where
  "handleAddNew_settle r st =
     (case r of
        Resolved addedOrder \<Rightarrow> ([], handleCancel (st\<lparr>orders := orders st @ [addedOrder]\<rparr>))
      | Rejected \<Rightarrow> ([ConsoleError, Alert ''Failed to create order''], st))"

definition handleAddNew ::
  "(nat \<Rightarrow> jsstring) \<Rightarrow> nat \<Rightarrow> nat \<Rightarrow> Order reply \<Rightarrow> page \<Rightarrow> effect list \<times> page" where
  "handleAddNew toISOString t0 d r st =
     (let newDoc = \<lparr>cd_type = ''order'',
                    cd_form = formState st,
                    cd_cartItems = cartItemsArray (formState st),
                    cd_createdAt = createdAt_default toISOString t0 d (formState st)\<rparr>;
          (es, st') = handleAddNew_settle r st
      in (PreventDefault # StoreCreate newDoc # es, st'))"

text \<open>
  Modelled from the spec: the document store is an external collaborator, whose create
  operation "accept[s] a typed document body and return[s] the persisted document
  including server-assigned id". \<open>persisted doc o\<close> says that \<open>o\<close> is such an answer to
  \<open>doc\<close> as far as the two fields the page computes are concerned.
\<close>

definition persisted :: "CreateData \<Rightarrow> Order \<Rightarrow> bool" where
  "persisted doc newOrder \<longleftrightarrow>
     cartItems newOrder = cd_cartItems doc \<and> createdAt newOrder = cd_createdAt doc"

subsection \<open>Runs of the page\<close>

text \<open>
  What can happen to the page: the user's actions, each handler taken as a whole, and the
  second halves of the asynchronous handlers arriving at any later moment with whatever
  they captured.
\<close>

datatype event =
    Refresh "Order list reply"
  | FetchStarted
  | FetchSettled "Order list reply"
  | EditClick Order
  | AddNewClick
  | Cancel
  | FormChange "OrderInput \<Rightarrow> OrderInput"
  | SubmitCreate "nat \<Rightarrow> jsstring" nat nat "Order reply"
  | CreateSettled "Order reply"
  | SubmitUpdate "Order reply"
  | UpdateSettled jsstring "Order reply"
  | DeleteClick jsstring bool "unit reply"
  | DeleteSettled jsstring "unit reply"

fun step :: "page \<Rightarrow> event \<Rightarrow> page" where
  "step st (Refresh r) = snd (fetchOrders r st)"
| "step st FetchStarted = st\<lparr>loading := True\<rparr>"
| "step st (FetchSettled r) = snd (fetchOrders_settle r st)"
| "step st (EditClick order) = snd (handleEditClick order st)"
| "step st AddNewClick = snd (onClickAddNew st)"
| "step st Cancel = handleCancel st"
| "step st (FormChange upd) = handleFormChange upd st"
| "step st (SubmitCreate toISOString t0 d r) = snd (handleAddNew toISOString t0 d r st)"
| "step st (CreateSettled r) = snd (handleAddNew_settle r st)"
| "step st (SubmitUpdate r) = snd (handleUpdate r st)"
| "step st (UpdateSettled eid r) = snd (handleUpdate_settle eid r st)"
| "step st (DeleteClick id' confirmed r) = snd (handleDelete id' confirmed r st)"
| "step st (DeleteSettled id' r) = snd (handleDelete_settle id' r st)"

definition run :: "event list \<Rightarrow> page" where
  "run evs = foldl step initial evs"

text \<open>The two modes of the form (lines 216-217).\<close>

definition isEditing :: "page \<Rightarrow> bool" where
  "isEditing st \<longleftrightarrow> editingOrder st \<noteq> None"

subsection \<open>What the store was sent\<close>

fun created :: "effect list \<Rightarrow> CreateData list" where
  "created [] = []"
| "created (StoreCreate doc # es) = doc # created es"
| "created (_ # es) = created es"

subsection \<open>The conversion as the specification words it\<close>

text \<open>
  "Split on commas": the pieces hold no comma, and written one after the other with a
  comma between neighbours they are the text. "Trimmed of surrounding whitespace": what
  is left of a piece when whitespace is taken away at both ends until none is left there.
\<close>

definition space :: "16 word" where
  "space = 0x20"

definition no_surrounding_space :: "jsstring \<Rightarrow> bool" where
  "no_surrounding_space x \<longleftrightarrow>
     x = [] \<or> (\<not> isWhiteSpace (hd x) \<and> \<not> isWhiteSpace (last x))"

definition trimmed_of :: "jsstring \<Rightarrow> jsstring \<Rightarrow> bool" where
  "trimmed_of p x \<longleftrightarrow>
     no_surrounding_space x \<and>
     (\<exists>l r. p = l @ x @ r \<and> list_all isWhiteSpace l \<and> list_all isWhiteSpace r)"

definition comma_separated :: "jsstring \<Rightarrow> jsstring list \<Rightarrow> bool" where
  "comma_separated s pieces \<longleftrightarrow>
     pieces \<noteq> [] \<and> list_all (\<lambda>p. comma \<notin> set p) pieces \<and> js_join [comma] pieces = s"

definition split_and_trimmed :: "jsstring \<Rightarrow> jsstring list \<Rightarrow> bool" where
  "split_and_trimmed s xs \<longleftrightarrow>
     (\<exists>pieces. comma_separated s pieces \<and> list_all2 trimmed_of pieces xs)"

text \<open>
  The sequences that come back unchanged from the form: no element holds a comma, none
  begins or ends with whitespace, and the sequence is not the single empty string.
\<close>

definition survives_edit :: "jsstring list \<Rightarrow> bool" where
  "survives_edit xs \<longleftrightarrow>
     xs \<noteq> [Nil] \<and> list_all (\<lambda>x. comma \<notin> set x \<and> no_surrounding_space x) xs"

subsection \<open>Example data\<close>

definition blankOrder :: Order where
  "blankOrder = \<lparr>order_id = [], fullName = [], email = [], phone = [], address = [],
     city = [], postalCode = [], country = [], paymentMethod = [], paymentStatus = [],
     amount = 0, createdAt = [], cartItems = []\<rparr>"

definition order_abc :: Order where
  "order_abc = blankOrder\<lparr>order_id := utf16 ''o1'',
     cartItems := [utf16 ''A'', utf16 ''B'', utf16 ''C'']\<rparr>"

definition order_x :: Order where
  "order_x = blankOrder\<lparr>order_id := utf16 ''x''\<rparr>"

definition order_y :: Order where
  "order_y = blankOrder\<lparr>order_id := utf16 ''y'', fullName := utf16 ''Y''\<rparr>"

section \<open>Properties\<close>

subsection \<open>Splitting\<close>

lemma js_split_Nil [simp]: "js_split sep [] = [Nil]"
  by (simp add: js_split.simps)

lemma js_split_Cons [simp]:
  "js_split sep (c # cs) =
     (if c = sep then [] # js_split sep cs
      else (c # hd (js_split sep cs)) # tl (js_split sep cs))"
proof (cases "c = sep")
  case True
  then show ?thesis
    by (subst js_split.simps) simp
next
  case False
  let ?P = "\<lambda>c. c \<noteq> sep"
  have whole: "js_split sep (c # cs) =
      (case dropWhile ?P (c # cs) of
         [] \<Rightarrow> [takeWhile ?P (c # cs)]
       | _ # rest \<Rightarrow> takeWhile ?P (c # cs) # js_split sep rest)"
    by (rule js_split.simps)
  have part: "js_split sep cs =
      (case dropWhile ?P cs of
         [] \<Rightarrow> [takeWhile ?P cs]
       | _ # rest \<Rightarrow> takeWhile ?P cs # js_split sep rest)"
    by (rule js_split.simps)
  have dw: "dropWhile ?P (c # cs) = dropWhile ?P cs"
    and tw: "takeWhile ?P (c # cs) = c # takeWhile ?P cs"
    using False by simp_all
  show ?thesis
  proof (cases "dropWhile ?P cs")
    case Nil
    have "js_split sep (c # cs) = [c # takeWhile ?P cs]"
      using whole by (simp only: dw tw Nil list.case)
    moreover have "js_split sep cs = [takeWhile ?P cs]"
      using part by (simp only: Nil list.case)
    ultimately show ?thesis
      using False by simp
  next
    case (Cons x rest)
    have "js_split sep (c # cs) = (c # takeWhile ?P cs) # js_split sep rest"
      using whole by (simp only: dw tw Cons list.case)
    moreover have "js_split sep cs = takeWhile ?P cs # js_split sep rest"
      using part by (simp only: Cons list.case)
    ultimately show ?thesis
      using False by simp
  qed
qed

lemma js_split_not_Nil [simp]: "js_split sep s \<noteq> []"
  by (cases s) simp_all

lemma length_js_split: "length (js_split sep s) = Suc (count_list s sep)"
  by (induction s) simp_all

lemma js_join_Cons: "ys \<noteq> [] \<Longrightarrow> js_join sep (x # ys) = x @ sep @ js_join sep ys"
  by (cases ys) simp_all

lemma js_join_push: "js_join sep ((c # x) # ys) = c # js_join sep (x # ys)"
  by (cases ys) simp_all

lemma js_join_js_split: "js_join [sep] (js_split sep s) = s"
proof (induction s)
  case Nil
  show ?case by simp
next
  case (Cons c cs)
  show ?case
  proof (cases "c = sep")
    case True
    then show ?thesis
      using Cons.IH by (simp add: js_join_Cons)
  next
    case False
    obtain p ps where S: "js_split sep cs = p # ps"
      by (cases "js_split sep cs") simp_all
    show ?thesis
      using False Cons.IH by (simp add: S js_join_push)
  qed
qed

lemma js_split_pieces: "p \<in> set (js_split sep s) \<Longrightarrow> sep \<notin> set p"
proof (induction s arbitrary: p)
  case Nil
  then show ?case by simp
next
  case (Cons c cs)
  obtain q qs where S: "js_split sep cs = q # qs"
    by (cases "js_split sep cs") simp_all
  show ?case
    using Cons.prems Cons.IH [of q] Cons.IH [of p]
    by (auto simp: S split: if_splits)
qed

lemma js_split_no_sep: "sep \<notin> set p \<Longrightarrow> js_split sep p = [p]"
  by (induction p) auto

lemma js_split_append: "sep \<notin> set p \<Longrightarrow> js_split sep (p @ sep # s) = p # js_split sep s"
  by (induction p) auto

lemma js_split_js_join:
  "ps \<noteq> [] \<Longrightarrow> list_all (\<lambda>p. sep \<notin> set p) ps \<Longrightarrow> js_split sep (js_join [sep] ps) = ps"
proof (induction ps)
  case Nil
  then show ?case by simp
next
  case (Cons x ys)
  show ?case
  proof (cases ys)
    case Nil
    then show ?thesis using Cons.prems by (simp add: js_split_no_sep)
  next
    case (Cons y zs)
    then show ?thesis
      using Cons.prems Cons.IH by (simp add: js_split_append)
  qed
qed

subsection \<open>Trimming\<close>

lemma rev_dropWhile_takeWhile: "rev (dropWhile P xs) @ rev (takeWhile P xs) = rev xs"
  by (metis rev_append takeWhile_dropWhile_id)

lemma list_all_takeWhile: "list_all P (takeWhile P xs)"
  by (induction xs) simp_all

lemma trim_suffix:
  "dropWhile isWhiteSpace s = trim s @ rev (takeWhile isWhiteSpace (rev (dropWhile isWhiteSpace s)))"
  unfolding trim_def by (simp only: rev_dropWhile_takeWhile rev_rev_ident)

lemma trim_decompose:
  "\<exists>l r. s = l @ trim s @ r \<and> list_all isWhiteSpace l \<and> list_all isWhiteSpace r"
proof -
  let ?m = "dropWhile isWhiteSpace s"
  let ?l = "takeWhile isWhiteSpace s"
  let ?r = "rev (takeWhile isWhiteSpace (rev ?m))"
  have "s = ?l @ ?m" by simp
  also have "?m = trim s @ ?r" by (rule trim_suffix)
  finally have "s = ?l @ trim s @ ?r" .
  moreover have "list_all isWhiteSpace ?l"
    by (rule list_all_takeWhile)
  moreover have "list_all isWhiteSpace ?r"
    using list_all_takeWhile [of isWhiteSpace "rev ?m"] by (simp add: list_all_iff)
  ultimately show ?thesis by blast
qed

lemma trim_ends: "no_surrounding_space (trim s)"
proof (cases "trim s = []")
  case True
  then show ?thesis by (simp add: no_surrounding_space_def)
next
  case False
  let ?m = "dropWhile isWhiteSpace s"
  let ?k = "dropWhile isWhiteSpace (rev ?m)"
  have t: "trim s = rev ?k" by (simp add: trim_def)
  have k: "?k \<noteq> []" using False unfolding t by simp
  have "\<not> isWhiteSpace (hd ?k)" using k by (rule hd_dropWhile)
  then have l: "\<not> isWhiteSpace (last (trim s))"
    using k unfolding t by (simp only: last_rev simp_thms)
  have m: "?m \<noteq> []" using k by (metis dropWhile.simps(1) rev.simps(1))
  then have hm: "\<not> isWhiteSpace (hd ?m)" by (rule hd_dropWhile)
  have "hd ?m = hd (trim s)"
    using False trim_suffix [of s] by (metis hd_append2)
  with hm l show ?thesis by (simp add: no_surrounding_space_def)
qed

lemma trimmed_of_trim: "trimmed_of s (trim s)"
  unfolding trimmed_of_def using trim_ends trim_decompose by blast

lemma dropWhile_all: "list_all P l \<Longrightarrow> dropWhile P (l @ ys) = dropWhile P ys"
  by (induction l) simp_all

lemma trim_surrounded:
  assumes "no_surrounding_space x" "list_all isWhiteSpace l" "list_all isWhiteSpace r"
  shows "trim (l @ x @ r) = x"
proof (cases x)
  case Nil
  have "dropWhile isWhiteSpace (l @ [] @ r) = dropWhile isWhiteSpace ([] @ r)"
    by (rule dropWhile_all [OF assms(2)])
  also have "\<dots> = []"
    using dropWhile_all [OF assms(3), of "[]"] by simp
  finally have e: "dropWhile isWhiteSpace (l @ [] @ r) = []" .
  show ?thesis
    unfolding Nil trim_def e by simp
next
  case (Cons c cs)
  have hd: "\<not> isWhiteSpace c" and last: "\<not> isWhiteSpace (last x)"
    using assms(1) by (simp_all add: no_surrounding_space_def Cons)
  have 1: "dropWhile isWhiteSpace (l @ x @ r) = x @ r"
    using hd by (simp add: dropWhile_all [OF assms(2)] Cons)
  have x: "rev x \<noteq> []" by (simp add: Cons)
  have "list_all isWhiteSpace (rev r)" using assms(3) by (simp add: list_all_iff)
  then have "dropWhile isWhiteSpace (rev r @ rev x) = dropWhile isWhiteSpace (rev x)"
    by (rule dropWhile_all)
  also have "\<dots> = rev x"
    using last x by (simp only: dropWhile_eq_self_iff hd_rev simp_thms)
  finally show ?thesis by (simp add: trim_def 1)
qed

lemma trimmed_of_iff: "trimmed_of p x \<longleftrightarrow> x = trim p"
  by (auto simp: trimmed_of_def trim_surrounded intro: trimmed_of_trim [unfolded trimmed_of_def, THEN conjunct1] trim_decompose trim_ends)

subsection \<open>The code's conversion is the specified one\<close>

lemma comma_separated_iff: "comma_separated s pieces \<longleftrightarrow> pieces = js_split comma s"
proof
  assume "comma_separated s pieces"
  then show "pieces = js_split comma s"
    unfolding comma_separated_def using js_split_js_join [of pieces comma] by auto
next
  assume "pieces = js_split comma s"
  then show "comma_separated s pieces"
    unfolding comma_separated_def
    by (simp add: js_join_js_split list_all_iff js_split_pieces)
qed

lemma list_all2_fun: "list_all2 (\<lambda>p x. x = f p) ps xs \<longleftrightarrow> xs = map f ps"
  by (induction ps arbitrary: xs) (auto simp: list_all2_Cons1)

lemma list_all2_trimmed_of: "list_all2 trimmed_of ps xs \<longleftrightarrow> xs = map trim ps"
proof -
  have eq: "trimmed_of = (\<lambda>p x. x = trim p)"
    by (intro ext) (rule trimmed_of_iff)
  show ?thesis
    unfolding eq by (rule list_all2_fun)
qed

lemma split_and_trimmed_iff: "split_and_trimmed s xs \<longleftrightarrow> xs = map trim (js_split comma s)"
  by (simp add: split_and_trimmed_def comma_separated_iff list_all2_trimmed_of)

subsection \<open>Joining and splitting again\<close>

lemma utf16_comma_space: "utf16 '', '' = [comma, space]"
  by (simp add: utf16_def comma_def space_def)

lemma space_facts: "space \<noteq> comma" "isWhiteSpace space" "\<not> isWhiteSpace comma"
  by (simp_all add: comma_def space_def isWhiteSpace_def)

lemma count_js_join:
  "count_list (js_join [comma, space] xs) comma =
     sum_list (map (\<lambda>x. count_list x comma) xs) + (length xs - 1)"
  by (induction "[comma, space]" xs rule: js_join.induct) (simp_all add: space_facts)

lemma js_join_eq_Nil: "sep \<noteq> [] \<Longrightarrow> js_join sep xs = [] \<longleftrightarrow> xs = [] \<or> xs = [Nil]"
  by (induction sep xs rule: js_join.induct) simp_all

lemma split_join_comma_space:
  "list_all (\<lambda>x. comma \<notin> set x) (x # xs) \<Longrightarrow>
     js_split comma (js_join [comma, space] (x # xs)) = x # map ((#) space) xs"
proof (induction xs arbitrary: x)
  case Nil
  then show ?case by (simp add: js_split_no_sep)
next
  case (Cons y ys)
  have "js_split comma (js_join [comma, space] (y # ys)) = y # map ((#) space) ys"
    using Cons.prems by (intro Cons.IH) simp
  then show ?case
    using Cons.prems by (simp add: js_split_append space_facts)
qed

lemma trim_space: "trim (space # x) = trim x"
  by (simp add: trim_def space_facts)

lemma trim_id_iff: "trim x = x \<longleftrightarrow> no_surrounding_space x"
proof
  assume "trim x = x"
  then show "no_surrounding_space x" using trim_ends [of x] by simp
next
  assume "no_surrounding_space x"
  then show "trim x = x" using trim_surrounded [of x "[]" "[]"] by simp
qed

lemma sum_count_0: "sum_list (map (\<lambda>x. count_list x c) xs) = 0 \<longleftrightarrow> list_all (\<lambda>x. c \<notin> set x) xs"
  by (induction xs) (simp_all add: count_list_0_iff)

lemma map_eq_self: "map f xs = xs \<longleftrightarrow> list_all (\<lambda>x. f x = x) xs"
  by (induction xs) simp_all

lemma roundtrip_iff:
  "(if js_join [comma, space] xs \<noteq> [] then map trim (js_split comma (js_join [comma, space] xs)) else []) = xs
     \<longleftrightarrow> survives_edit xs"
proof (cases "xs = [] \<or> xs = [Nil]")
  case True
  then show ?thesis by (auto simp: survives_edit_def)
next
  case False
  then obtain x rest where xs: "xs = x # rest" by (cases xs) auto
  have ne: "js_join [comma, space] xs \<noteq> []"
    using False by (simp add: js_join_eq_Nil)
  show ?thesis
  proof
    assume "survives_edit xs"
    then have cf: "list_all (\<lambda>x. comma \<notin> set x) (x # rest)"
      and tr: "list_all no_surrounding_space (x # rest)"
      by (simp_all add: survives_edit_def xs list_all_iff)
    have "map trim (x # map ((#) space) rest) = x # rest"
      using tr by (simp add: trim_space comp_def map_eq_self trim_id_iff)
    then show "(if js_join [comma, space] xs \<noteq> [] then map trim (js_split comma (js_join [comma, space] xs)) else []) = xs"
      using ne cf by (simp add: xs split_join_comma_space)
  next
    assume "(if js_join [comma, space] xs \<noteq> [] then map trim (js_split comma (js_join [comma, space] xs)) else []) = xs"
    then have eq: "map trim (js_split comma (js_join [comma, space] xs)) = xs"
      using ne by simp
    then have "length (js_split comma (js_join [comma, space] xs)) = length xs"
      by (metis length_map)
    then have "sum_list (map (\<lambda>x. count_list x comma) xs) = 0"
      by (simp add: length_js_split count_js_join xs)
    then have cf: "list_all (\<lambda>x. comma \<notin> set x) (x # rest)"
      by (simp only: sum_count_0 xs)
    have "map trim (x # map ((#) space) rest) = x # rest"
      using eq cf by (simp only: xs split_join_comma_space)
    then have "trim x = x" and "map trim rest = rest"
      by (simp_all add: trim_space comp_def)
    then have "list_all no_surrounding_space (x # rest)"
      by (simp add: map_eq_self trim_id_iff)
    with cf False show "survives_edit xs"
      by (simp add: survives_edit_def xs list_all_iff)
  qed
qed

lemma filter_single:
  assumes "length (filter P xs) = 1"
  shows "\<exists>ys x zs. xs = ys @ x # zs \<and> P x \<and> filter (\<lambda>y. \<not> P y) xs = ys @ zs"
proof -
  from assms obtain x where "filter P xs = [x]"
    by (cases "filter P xs") simp_all
  then obtain us vs where xs: "xs = us @ x # vs" and us: "\<forall>u\<in>set us. \<not> P u"
    and x: "P x" and vs: "[] = filter P vs"
    unfolding filter_eq_Cons_iff by blast
  from vs [symmetric] have "\<forall>v\<in>set vs. \<not> P v"
    by (simp add: filter_empty_conv)
  with us x have "filter (\<lambda>y. \<not> P y) xs = us @ vs"
    by (simp add: xs)
  with xs x show ?thesis by blast
qed

lemma step_keeps_modes_apart:
  "\<not> (showAddForm st \<and> isEditing st) \<Longrightarrow> \<not> (showAddForm (step st ev) \<and> isEditing (step st ev))"
  by (cases ev)
    (auto simp: isEditing_def fetchOrders_def fetchOrders_settle_def handleEditClick_def
      onClickAddNew_def handleCancel_def handleFormChange_def handleAddNew_def
      handleAddNew_settle_def handleUpdate_def handleUpdate_settle_def handleDelete_def
      handleDelete_settle_def Let_def split: reply.splits option.splits if_splits)

lemma foldl_keeps_modes_apart:
  "\<not> (showAddForm st \<and> isEditing st) \<Longrightarrow>
     \<not> (showAddForm (foldl step st evs) \<and> isEditing (foldl step st evs))"
proof (induction evs arbitrary: st)
  case Nil
  then show ?case by simp
next
  case (Cons ev evs)
  show ?case
    unfolding foldl_Cons by (rule Cons.IH) (rule step_keeps_modes_apart [OF Cons.prems])
qed

lemma created_handleAddNew:
  "created (fst (handleAddNew toISOString t0 d r st)) =
     [\<lparr>cd_type = ''order'', cd_form = formState st,
       cd_cartItems = cartItemsArray (formState st),
       cd_createdAt = createdAt_default toISOString t0 d (formState st)\<rparr>]"
  by (cases r) (simp_all add: handleAddNew_def handleAddNew_settle_def)

lemma orders_handleAddNew:
  "orders (snd (handleAddNew toISOString t0 d (Resolved newOrder) st)) = orders st @ [newOrder]"
  by (simp add: handleAddNew_def handleAddNew_settle_def handleCancel_def)

lemma cartItemsArray_cases:
  "cartItemsArray fs =
     (case cartItems_in fs of
        None \<Rightarrow> []
      | Some s \<Rightarrow> if s = [] then [] else map trim (js_split comma s))"
  by (simp add: cartItemsArray_def truthy_def split: option.splits)

subsection \<open>The claims\<close>

text \<open>
  C1. On every create submission the store is sent exactly one document, and its
  \<open>cartItems\<close> is: the empty sequence when the form's cart-items text is unset or
  empty; otherwise the one sequence that is the text split on commas, each piece trimmed
  of surrounding whitespace, in order. When the store resolves with the persisted
  document, that same sequence is the \<open>cartItems\<close> of the entry appended to the local list.
\<close>

theorem C1_create_sends_split_and_trimmed:
  assumes "handleAddNew toISOString t0 d r st = (es, st')"
  shows "\<exists>doc. created es = [doc]
     \<and> (\<not> truthy (cartItems_in (formState st)) \<longrightarrow> cd_cartItems doc = [])
     \<and> (\<forall>s xs. cartItems_in (formState st) = Some s \<and> s \<noteq> [] \<longrightarrow>
           (split_and_trimmed s xs \<longleftrightarrow> xs = cd_cartItems doc))
     \<and> (\<forall>newOrder. r = Resolved newOrder \<and> persisted doc newOrder \<longrightarrow>
           orders st' = orders st @ [newOrder]
           \<and> cartItems (last (orders st')) = cd_cartItems doc)"
proof -
  let ?doc = "\<lparr>cd_type = ''order'', cd_form = formState st,
       cd_cartItems = cartItemsArray (formState st),
       cd_createdAt = createdAt_default toISOString t0 d (formState st)\<rparr>"
  have es: "es = fst (handleAddNew toISOString t0 d r st)"
    and st': "st' = snd (handleAddNew toISOString t0 d r st)"
    using assms by simp_all
  have sent: "created es = [?doc]"
    unfolding es by (rule created_handleAddNew)
  have empty: "\<not> truthy (cartItems_in (formState st)) \<longrightarrow> cd_cartItems ?doc = []"
    by (simp add: cartItemsArray_def)
  have split: "\<forall>s xs. cartItems_in (formState st) = Some s \<and> s \<noteq> [] \<longrightarrow>
           (split_and_trimmed s xs \<longleftrightarrow> xs = cd_cartItems ?doc)"
    by (simp add: cartItemsArray_cases split_and_trimmed_iff)
  have kept: "\<forall>newOrder. r = Resolved newOrder \<and> persisted ?doc newOrder \<longrightarrow>
           orders st' = orders st @ [newOrder]
           \<and> cartItems (last (orders st')) = cd_cartItems ?doc"
    unfolding st' by (simp add: orders_handleAddNew persisted_def)
  from sent empty split kept show ?thesis by blast
qed

theorem C1_create_sends_split_and_trimmed_witness:
  "cd_cartItems (hd (created (fst (handleAddNew (\<lambda>t. utf16 ''2024-01-01T00:00:00.000Z'') 5 2
       (Resolved (blankOrder\<lparr>createdAt := utf16 ''2024-01-01T00:00:00.000Z'',
          cartItems := [utf16 ''A'', utf16 ''B'', [], utf16 ''C'']\<rparr>))
       (initial\<lparr>formState := emptyForm\<lparr>cartItems_in := Some (utf16 ''A, B ,,C '')\<rparr>\<rparr>)))))
     = [utf16 ''A'', utf16 ''B'', [], utf16 ''C'']
   \<and> split_and_trimmed (utf16 ''A, B ,,C '') [utf16 ''A'', utf16 ''B'', [], utf16 ''C'']
   \<and> cartItems (last (orders (snd (handleAddNew (\<lambda>t. utf16 ''2024-01-01T00:00:00.000Z'') 5 2
       (Resolved (blankOrder\<lparr>createdAt := utf16 ''2024-01-01T00:00:00.000Z'',
          cartItems := [utf16 ''A'', utf16 ''B'', [], utf16 ''C'']\<rparr>))
       (initial\<lparr>formState := emptyForm\<lparr>cartItems_in := Some (utf16 ''A, B ,,C '')\<rparr>\<rparr>)))))
     = [utf16 ''A'', utf16 ''B'', [], utf16 ''C'']"
proof -
  let ?iso = "\<lambda>t::nat. utf16 ''2024-01-01T00:00:00.000Z''"
  let ?o = "blankOrder\<lparr>createdAt := utf16 ''2024-01-01T00:00:00.000Z'',
          cartItems := [utf16 ''A'', utf16 ''B'', [], utf16 ''C'']\<rparr>"
  let ?st = "initial\<lparr>formState := emptyForm\<lparr>cartItems_in := Some (utf16 ''A, B ,,C '')\<rparr>\<rparr>"
  let ?h = "handleAddNew ?iso 5 2 (Resolved ?o) ?st"
  have run: "?h = (fst ?h, snd ?h)" by simp
  have sent: "cd_cartItems (hd (created (fst ?h))) = [utf16 ''A'', utf16 ''B'', [], utf16 ''C'']"
    by (simp add: created_handleAddNew cartItemsArray_def truthy_def initial_def emptyForm_def
        utf16_def comma_def trim_def isWhiteSpace_def)
  obtain doc where doc: "created (fst ?h) = [doc]"
    and split: "\<forall>s xs. cartItems_in (formState ?st) = Some s \<and> s \<noteq> [] \<longrightarrow>
           (split_and_trimmed s xs \<longleftrightarrow> xs = cd_cartItems doc)"
    and kept: "\<forall>newOrder. Resolved ?o = Resolved newOrder \<and> persisted doc newOrder \<longrightarrow>
           orders (snd ?h) = orders ?st @ [newOrder]
           \<and> cartItems (last (orders (snd ?h))) = cd_cartItems doc"
    using C1_create_sends_split_and_trimmed [OF run] by blast
  from doc sent have items: "cd_cartItems doc = [utf16 ''A'', utf16 ''B'', [], utf16 ''C'']"
    by simp
  have field: "cartItems_in (formState ?st) = Some (utf16 ''A, B ,,C '') \<and> utf16 ''A, B ,,C '' \<noteq> []"
    by (simp add: utf16_def)
  have 1: "split_and_trimmed (utf16 ''A, B ,,C '') [utf16 ''A'', utf16 ''B'', [], utf16 ''C'']"
    using split [rule_format, OF field, THEN iffD2, OF refl] unfolding items .
  have p: "persisted doc ?o"
    using doc by (auto simp: persisted_def created_handleAddNew blankOrder_def
        cartItemsArray_def truthy_def initial_def emptyForm_def createdAt_default_def
        utf16_def comma_def trim_def isWhiteSpace_def)
  have 2: "cartItems (last (orders (snd ?h))) = [utf16 ''A'', utf16 ''B'', [], utf16 ''C'']"
    using kept [rule_format, OF conjI [OF refl p], THEN conjunct2] unfolding items .
  from sent 1 2 show ?thesis by (intro conjI)
qed

text \<open>
  C2 (as amended). Selecting Edit sets the cart-items form field to the order's
  \<open>cartItems\<close> joined with \<^verbatim>\<open>", "\<close>. The update conversion of that field gives the original
  sequence back exactly when no element holds a comma, no element begins or ends with
  whitespace, and the sequence is not the single empty string.
\<close>

theorem C2_edit_round_trip:
  "cartItems_in (formState (snd (handleEditClick order st)))
     = Some (js_join (utf16 '', '') (cartItems order))
   \<and> (cartItemsArray (formState (snd (handleEditClick order st))) = cartItems order
        \<longleftrightarrow> survives_edit (cartItems order))"
proof -
  have field: "cartItems_in (formState (snd (handleEditClick order st)))
      = Some (js_join [comma, space] (cartItems order))"
    by (simp add: handleEditClick_def utf16_comma_space)
  have "cartItemsArray (formState (snd (handleEditClick order st))) =
      (if js_join [comma, space] (cartItems order) \<noteq> []
       then map trim (js_split comma (js_join [comma, space] (cartItems order))) else [])"
    by (simp add: cartItemsArray_cases field)
  then have "cartItemsArray (formState (snd (handleEditClick order st))) = cartItems order
        \<longleftrightarrow> survives_edit (cartItems order)"
    by (simp only: roundtrip_iff)
  with field show ?thesis
    by (simp only: utf16_comma_space simp_thms)
qed

theorem C2_edit_round_trip_witness:
  "cartItems_in (formState (snd (handleEditClick order_abc initial))) = Some (utf16 ''A, B, C'')
   \<and> survives_edit (cartItems order_abc)
   \<and> cartItemsArray (formState (snd (handleEditClick order_abc initial)))
       = [utf16 ''A'', utf16 ''B'', utf16 ''C'']"
proof -
  have s: "survives_edit (cartItems order_abc)"
    by (simp add: survives_edit_def order_abc_def blankOrder_def utf16_def comma_def
        no_surrounding_space_def isWhiteSpace_def)
  have c: "cartItems order_abc = [utf16 ''A'', utf16 ''B'', utf16 ''C'']"
    by (simp add: order_abc_def)
  have j: "js_join (utf16 '', '') (cartItems order_abc) = utf16 ''A, B, C''"
    by (simp add: order_abc_def utf16_def)
  note rt = C2_edit_round_trip [of order_abc initial]
  from rt [THEN conjunct1] j
  have 1: "cartItems_in (formState (snd (handleEditClick order_abc initial))) = Some (utf16 ''A, B, C'')"
    by simp
  from rt [THEN conjunct2, THEN iffD2, OF s] c
  have 2: "cartItemsArray (formState (snd (handleEditClick order_abc initial)))
       = [utf16 ''A'', utf16 ''B'', utf16 ''C'']"
    by simp
  from 1 s 2 show ?thesis by (intro conjI)
qed

text \<open>
  The claim as first stated, for every sequence, fails: an element holding a comma comes
  back as two elements, an element with a leading blank comes back without it, and the
  single empty string comes back as the empty sequence.
\<close>

theorem C2_round_trip_counterexample:
  "cartItemsArray (formState (snd (handleEditClick (blankOrder\<lparr>cartItems := [utf16 ''a,b'']\<rparr>) initial)))
     = [utf16 ''a'', utf16 ''b'']
   \<and> [utf16 ''a'', utf16 ''b''] \<noteq> [utf16 ''a,b'']
   \<and> cartItemsArray (formState (snd (handleEditClick (blankOrder\<lparr>cartItems := [utf16 '' a'']\<rparr>) initial)))
     = [utf16 ''a'']
   \<and> [utf16 ''a''] \<noteq> [utf16 '' a'']
   \<and> cartItemsArray (formState (snd (handleEditClick (blankOrder\<lparr>cartItems := [Nil]\<rparr>) initial)))
     = []
   \<and> [] \<noteq> [Nil :: jsstring]"
  by (simp add: handleEditClick_def cartItemsArray_def truthy_def blankOrder_def utf16_def
      comma_def trim_def isWhiteSpace_def)

text \<open>
  C3. On a successful update the local list keeps its length and order; the entry at each
  position is replaced by the store's document if its id equals the id of the order being
  edited, and is left as it was otherwise.
\<close>

theorem C3_update_replaces_by_id:
  assumes "editingOrder st = Some eo" and "order_id eo \<noteq> []"
  shows "length (orders (snd (handleUpdate (Resolved updatedOrder) st))) = length (orders st)
       \<and> (\<forall>i < length (orders st).
            orders (snd (handleUpdate (Resolved updatedOrder) st)) ! i =
              (if order_id (orders st ! i) = order_id eo then updatedOrder else orders st ! i))"
  using assms by (simp add: handleUpdate_def handleUpdate_settle_def handleCancel_def)

theorem C3_update_replaces_by_id_witness:
  "editingOrder (snd (handleEditClick order_x (initial\<lparr>orders := [order_y, order_x, order_abc]\<rparr>)))
     = Some order_x
   \<and> order_id order_x \<noteq> []
   \<and> orders (snd (handleUpdate (Resolved (order_x\<lparr>city := utf16 ''Oslo''\<rparr>))
        (snd (handleEditClick order_x (initial\<lparr>orders := [order_y, order_x, order_abc]\<rparr>)))))
     = [order_y, order_x\<lparr>city := utf16 ''Oslo''\<rparr>, order_abc]"
proof -
  let ?st = "snd (handleEditClick order_x (initial\<lparr>orders := [order_y, order_x, order_abc]\<rparr>))"
  let ?u = "order_x\<lparr>city := utf16 ''Oslo''\<rparr>"
  have e: "editingOrder ?st = Some order_x"
    by (simp add: handleEditClick_def)
  have i: "order_id order_x \<noteq> []"
    by (simp add: order_x_def utf16_def)
  have o: "orders ?st = [order_y, order_x, order_abc]"
    by (simp add: handleEditClick_def)
  have ids: "order_id order_y \<noteq> order_id order_x" "order_id order_abc \<noteq> order_id order_x"
    by (simp_all add: order_x_def order_y_def order_abc_def blankOrder_def utf16_def)
  note r = C3_update_replaces_by_id [OF e i, of ?u]
  have len: "length (orders (snd (handleUpdate (Resolved ?u) ?st))) = 3"
    using r [THEN conjunct1] by (simp only: o) simp
  have nth: "orders (snd (handleUpdate (Resolved ?u) ?st)) ! k =
      (if order_id ([order_y, order_x, order_abc] ! k) = order_id order_x then ?u
       else [order_y, order_x, order_abc] ! k)" if "k < 3" for k
    using r [THEN conjunct2, rule_format, of k] that by (simp only: o) simp
  have "orders (snd (handleUpdate (Resolved ?u) ?st)) = [order_y, ?u, order_abc]"
  proof (rule nth_equalityI)
    show "length (orders (snd (handleUpdate (Resolved ?u) ?st))) = length [order_y, ?u, order_abc]"
      using len by simp
    fix k assume "k < length (orders (snd (handleUpdate (Resolved ?u) ?st)))"
    then have "k = 0 \<or> k = 1 \<or> k = 2" using len by auto
    then show "orders (snd (handleUpdate (Resolved ?u) ?st)) ! k = [order_y, ?u, order_abc] ! k"
      using nth [of 0] nth [of 1] nth [of 2] ids by auto
  qed
  with e i show ?thesis by (intro conjI)
qed

text \<open>
  C4 (as amended). When the id occurs exactly once in the local list, a confirmed and
  successful delete removes that one entry and leaves the others as they were, in order.
  When the user declines the confirmation, the state is unchanged and no store call is
  issued.
\<close>

theorem C4_delete_removes_the_entry:
  "(length (filter (\<lambda>order. order_id order = id') (orders st)) = 1 \<longrightarrow>
      (\<exists>before entry after. orders st = before @ entry # after \<and> order_id entry = id'
         \<and> orders (snd (handleDelete id' True (Resolved ()) st)) = before @ after))
   \<and> snd (handleDelete id' False r st) = st
   \<and> \<not> list_ex is_store_call (fst (handleDelete id' False r st))"
proof -
  have "orders (snd (handleDelete id' True (Resolved ()) st))
      = filter (\<lambda>order. \<not> order_id order = id') (orders st)"
    by (simp add: handleDelete_def handleDelete_settle_def)
  then have "\<exists>before entry after. orders st = before @ entry # after \<and> order_id entry = id'
         \<and> orders (snd (handleDelete id' True (Resolved ()) st)) = before @ after"
    if "length (filter (\<lambda>order. order_id order = id') (orders st)) = 1"
    using filter_single [OF that] by simp
  then show ?thesis
    by (simp add: handleDelete_def)
qed

theorem C4_delete_removes_the_entry_witness:
  "length (filter (\<lambda>order. order_id order = utf16 ''x'') [order_y, order_x, order_abc]) = 1
   \<and> orders (snd (handleDelete (utf16 ''x'') True (Resolved ())
        (initial\<lparr>orders := [order_y, order_x, order_abc]\<rparr>))) = [order_y, order_abc]
   \<and> snd (handleDelete (utf16 ''x'') False Rejected (initial\<lparr>orders := [order_y, order_x, order_abc]\<rparr>))
       = initial\<lparr>orders := [order_y, order_x, order_abc]\<rparr>
   \<and> \<not> list_ex is_store_call
        (fst (handleDelete (utf16 ''x'') False Rejected (initial\<lparr>orders := [order_y, order_x, order_abc]\<rparr>)))"
proof -
  let ?st = "initial\<lparr>orders := [order_y, order_x, order_abc]\<rparr>"
  have once: "length (filter (\<lambda>order. order_id order = utf16 ''x'') [order_y, order_x, order_abc]) = 1"
    by (simp add: order_x_def order_y_def order_abc_def blankOrder_def utf16_def)
  note d = C4_delete_removes_the_entry [of "utf16 ''x''" ?st Rejected]
  have o: "orders ?st = [order_y, order_x, order_abc]" by simp
  from d [THEN conjunct1] once obtain before entry after
    where split: "[order_y, order_x, order_abc] = before @ entry # after"
      and entry: "order_id entry = utf16 ''x''"
      and left: "orders (snd (handleDelete (utf16 ''x'') True (Resolved ()) ?st)) = before @ after"
    unfolding o by blast
  have ids: "order_id order_y \<noteq> utf16 ''x''" "order_id order_abc \<noteq> utf16 ''x''"
    by (simp_all add: order_y_def order_abc_def blankOrder_def utf16_def)
  have "before = [order_y] \<and> after = [order_abc]"
    using split entry ids by (auto simp: Cons_eq_append_conv append_eq_Cons_conv)
  with left have 1: "orders (snd (handleDelete (utf16 ''x'') True (Resolved ()) ?st))
      = [order_y, order_abc]"
    by simp
  from once 1 d [THEN conjunct2] show ?thesis by (intro conjI) simp_all
qed

text \<open>
  The claim as first stated, for every list, fails where an id occurs twice. Such a list
  arises when a refresh and a create overlap: the fetch answers with the new order in
  it, then the create resolves and appends the same order. The delete then removes both
  entries.
\<close>

theorem C4_delete_exactly_one_counterexample:
  "orders (run [FetchStarted, FetchSettled (Resolved [order_x]), CreateSettled (Resolved order_x)])
     = [order_x, order_x]
   \<and> order_id order_x = utf16 ''x''
   \<and> orders (snd (handleDelete (utf16 ''x'') True (Resolved ())
        (run [FetchStarted, FetchSettled (Resolved [order_x]), CreateSettled (Resolved order_x)])))
     = []
   \<and> length ([] :: Order list) \<noteq> length [order_x, order_x] - 1"
  by (simp add: run_def initial_def fetchOrders_settle_def handleAddNew_settle_def
      handleCancel_def handleDelete_def handleDelete_settle_def order_x_def blankOrder_def)

text \<open>
  C5. When an update is submitted with an edit target and the store's patch call fails,
  the handler logs the error, raises the alert and changes nothing: the order list, the
  edit target (still set) and the form state are what they were at submission.
\<close>

theorem C5_failed_update_changes_nothing:
  assumes "editingOrder st = Some eo" and "order_id eo \<noteq> []"
  shows "fst (handleUpdate Rejected st) =
           [PreventDefault,
            StorePatch (order_id eo)
              \<lparr>ud_form = formState st, ud_cartItems = cartItemsArray (formState st)\<rparr>,
            ConsoleError, Alert ''Failed to update order'']
       \<and> snd (handleUpdate Rejected st) = st
       \<and> orders (snd (handleUpdate Rejected st)) = orders st
       \<and> editingOrder (snd (handleUpdate Rejected st)) = Some eo
       \<and> formState (snd (handleUpdate Rejected st)) = formState st"
  using assms by (simp add: handleUpdate_def handleUpdate_settle_def)

theorem C5_failed_update_changes_nothing_witness:
  "editingOrder (snd (handleEditClick order_abc (initial\<lparr>orders := [order_y, order_abc]\<rparr>)))
     = Some order_abc
   \<and> order_id order_abc \<noteq> []
   \<and> snd (handleUpdate Rejected (snd (handleEditClick order_abc (initial\<lparr>orders := [order_y, order_abc]\<rparr>))))
     = snd (handleEditClick order_abc (initial\<lparr>orders := [order_y, order_abc]\<rparr>))
   \<and> orders (snd (handleUpdate Rejected
        (snd (handleEditClick order_abc (initial\<lparr>orders := [order_y, order_abc]\<rparr>)))))
     = [order_y, order_abc]
   \<and> editingOrder (snd (handleUpdate Rejected
        (snd (handleEditClick order_abc (initial\<lparr>orders := [order_y, order_abc]\<rparr>)))))
     = Some order_abc"
proof -
  let ?st = "snd (handleEditClick order_abc (initial\<lparr>orders := [order_y, order_abc]\<rparr>))"
  have e: "editingOrder ?st = Some order_abc"
    by (simp add: handleEditClick_def)
  have i: "order_id order_abc \<noteq> []"
    by (simp add: order_abc_def utf16_def)
  have o: "orders ?st = [order_y, order_abc]"
    by (simp add: handleEditClick_def)
  note r = C5_failed_update_changes_nothing [OF e i]
  from r have same: "snd (handleUpdate Rejected ?st) = ?st" by (elim conjE)
  from r have ord: "orders (snd (handleUpdate Rejected ?st)) = orders ?st" by (elim conjE)
  from r have ed: "editingOrder (snd (handleUpdate Rejected ?st)) = Some order_abc" by (elim conjE)
  from ord have ord': "orders (snd (handleUpdate Rejected ?st)) = [order_y, order_abc]"
    by (simp only: o)
  from e i same ord' ed show ?thesis by (intro conjI)
qed

text \<open>
  C6. On every create submission the document sent to the store has as \<open>createdAt\<close> the
  form's value when that is set and not empty; otherwise it has the clock's reading taken
  while the handler runs, formatted by \<^verbatim>\<open>toISOString\<close>, and that reading is no earlier
  than the instant the handler was entered.
\<close>

theorem C6_createdAt_defaults_to_now:
  "(createdAt_in (formState st) = None \<or> createdAt_in (formState st) = Some [] \<longrightarrow>
      map cd_createdAt (created (fst (handleAddNew toISOString t0 d r st)))
        = [toISOString (t0 + d)] \<and> t0 \<le> t0 + d)
   \<and> (\<forall>s. createdAt_in (formState st) = Some s \<and> s \<noteq> [] \<longrightarrow>
      map cd_createdAt (created (fst (handleAddNew toISOString t0 d r st))) = [s])"
  by (auto simp: created_handleAddNew createdAt_default_def truthy_def)

theorem C6_createdAt_defaults_to_now_witness:
  "createdAt_in (formState (snd (onClickAddNew initial))) = None
   \<and> map cd_createdAt (created (fst (handleAddNew (\<lambda>t. replicate t 0x31) 3 2 Rejected
        (snd (onClickAddNew initial)))))
     = [utf16 ''11111'']
   \<and> createdAt_in (emptyForm\<lparr>createdAt_in := Some (utf16 ''2024-05-06T07:08'')\<rparr>)
       = Some (utf16 ''2024-05-06T07:08'')
   \<and> utf16 ''2024-05-06T07:08'' \<noteq> []
   \<and> map cd_createdAt (created (fst (handleAddNew (\<lambda>t. replicate t 0x31) 3 2 Rejected
        (initial\<lparr>formState := emptyForm\<lparr>createdAt_in := Some (utf16 ''2024-05-06T07:08'')\<rparr>\<rparr>))))
     = [utf16 ''2024-05-06T07:08'']"
proof -
  let ?iso = "\<lambda>t::nat. replicate t (0x31 :: 16 word)"
  let ?st1 = "snd (onClickAddNew initial)"
  let ?st2 = "initial\<lparr>formState := emptyForm\<lparr>createdAt_in := Some (utf16 ''2024-05-06T07:08'')\<rparr>\<rparr>"
  have unset: "createdAt_in (formState ?st1) = None"
    by (simp add: onClickAddNew_def emptyForm_def)
  then have u: "createdAt_in (formState ?st1) = None \<or> createdAt_in (formState ?st1) = Some []"
    by (rule disjI1)
  have "map cd_createdAt (created (fst (handleAddNew ?iso 3 2 Rejected ?st1))) = [?iso (3 + 2)]"
    using C6_createdAt_defaults_to_now [of ?st1 ?iso 3 2 Rejected, THEN conjunct1, rule_format, OF u]
    by (rule conjunct1)
  moreover have "?iso (3 + 2) = utf16 ''11111''"
    by (simp add: utf16_def numeral_eq_Suc)
  ultimately have 1: "map cd_createdAt (created (fst (handleAddNew ?iso 3 2 Rejected ?st1)))
      = [utf16 ''11111'']"
    by (simp only:)
  have set: "createdAt_in (formState ?st2) = Some (utf16 ''2024-05-06T07:08'')
      \<and> utf16 ''2024-05-06T07:08'' \<noteq> []"
    by (simp add: utf16_def)
  have 2: "map cd_createdAt (created (fst (handleAddNew ?iso 3 2 Rejected ?st2)))
      = [utf16 ''2024-05-06T07:08'']"
    using C6_createdAt_defaults_to_now [of ?st2 ?iso 3 2 Rejected, THEN conjunct2, rule_format, OF set] .
  have f: "createdAt_in (emptyForm\<lparr>createdAt_in := Some (utf16 ''2024-05-06T07:08'')\<rparr>)
       = Some (utf16 ''2024-05-06T07:08'')"
    by simp
  from unset 1 f set [THEN conjunct2] 2 show ?thesis by (intro conjI)
qed

text \<open>
  C7. When the fetch fails, the error is logged and nothing else is done: the order list
  keeps its value and no alert is raised. When it succeeds, the fetched array becomes the
  order list.
\<close>

theorem C7_failed_fetch_keeps_the_list:
  "fst (fetchOrders Rejected st) = [StoreFetch, ConsoleError]
   \<and> \<not> list_ex is_alert (fst (fetchOrders Rejected st))
   \<and> orders (snd (fetchOrders Rejected st)) = orders st
   \<and> snd (fetchOrders Rejected st) = st\<lparr>loading := False\<rparr>
   \<and> orders (snd (fetchOrders (Resolved data) st)) = data"
  by (simp add: fetchOrders_def fetchOrders_settle_def)

theorem C7_failed_fetch_keeps_the_list_witness:
  "orders (snd (fetchOrders Rejected (initial\<lparr>orders := [order_y, order_x]\<rparr>))) = [order_y, order_x]
   \<and> \<not> list_ex is_alert (fst (fetchOrders Rejected (initial\<lparr>orders := [order_y, order_x]\<rparr>)))
   \<and> orders (snd (fetchOrders (Resolved [order_abc]) (initial\<lparr>orders := [order_y, order_x]\<rparr>)))
       = [order_abc]"
  using C7_failed_fetch_keeps_the_list [of "initial\<lparr>orders := [order_y, order_x]\<rparr>" "[order_abc]"]
  by simp

text \<open>
  C8. In every state the page reaches from its initial state, by user actions, by whole
  handlers and by the late halves of asynchronous handlers in any order, the add form and
  the edit mode are not both active. Selecting an order for edit sets the edit target
  and clears \<open>showAddForm\<close>; the Add New button sets \<open>showAddForm\<close> and clears the edit target.
\<close>

theorem C8_modes_exclude_each_other:
  "\<not> (showAddForm (run evs) \<and> isEditing (run evs))
   \<and> isEditing (snd (handleEditClick order st)) \<and> \<not> showAddForm (snd (handleEditClick order st))
   \<and> showAddForm (snd (onClickAddNew st)) \<and> \<not> isEditing (snd (onClickAddNew st))"
proof -
  have "\<not> (showAddForm initial \<and> isEditing initial)"
    by (simp add: initial_def)
  then have "\<not> (showAddForm (run evs) \<and> isEditing (run evs))"
    unfolding run_def by (rule foldl_keeps_modes_apart)
  then show ?thesis
    by (simp add: isEditing_def handleEditClick_def onClickAddNew_def)
qed

theorem C8_modes_exclude_each_other_witness:
  "\<not> (showAddForm (run [AddNewClick, EditClick order_x, SubmitUpdate Rejected, AddNewClick,
          UpdateSettled (utf16 ''x'') (Resolved order_x), EditClick order_y])
       \<and> isEditing (run [AddNewClick, EditClick order_x, SubmitUpdate Rejected, AddNewClick,
          UpdateSettled (utf16 ''x'') (Resolved order_x), EditClick order_y]))
   \<and> isEditing (run [AddNewClick, EditClick order_x, SubmitUpdate Rejected, AddNewClick,
          UpdateSettled (utf16 ''x'') (Resolved order_x), EditClick order_y])
   \<and> showAddForm (run [AddNewClick])"
proof -
  have 1: "isEditing (run [AddNewClick, EditClick order_x, SubmitUpdate Rejected, AddNewClick,
          UpdateSettled (utf16 ''x'') (Resolved order_x), EditClick order_y])"
    by (simp add: run_def isEditing_def handleEditClick_def)
  have 2: "showAddForm (run [AddNewClick])"
    by (simp add: run_def onClickAddNew_def)
  from C8_modes_exclude_each_other [THEN conjunct1] 1 2 show ?thesis
    by (intro conjI)
qed

text \<open>
  C9. When the update handler runs with no edit target, or with one whose id is empty, it
  issues no store call and leaves the whole state as it was.
\<close>

theorem C9_update_without_target_does_nothing:
  assumes "editingOrder st = None \<or> (\<exists>eo. editingOrder st = Some eo \<and> order_id eo = [])"
  shows "snd (handleUpdate r st) = st
       \<and> \<not> list_ex is_store_call (fst (handleUpdate r st))
       \<and> fst (handleUpdate r st) = [PreventDefault]"
  using assms by (auto simp: handleUpdate_def)

theorem C9_update_without_target_does_nothing_witness:
  "editingOrder (snd (onClickAddNew (initial\<lparr>orders := [order_x]\<rparr>))) = None
   \<and> snd (handleUpdate (Resolved order_y) (snd (onClickAddNew (initial\<lparr>orders := [order_x]\<rparr>))))
       = snd (onClickAddNew (initial\<lparr>orders := [order_x]\<rparr>))
   \<and> \<not> list_ex is_store_call
        (fst (handleUpdate (Resolved order_y) (snd (onClickAddNew (initial\<lparr>orders := [order_x]\<rparr>)))))
   \<and> editingOrder (snd (handleEditClick blankOrder initial)) = Some blankOrder
   \<and> order_id blankOrder = []
   \<and> snd (handleUpdate (Resolved order_y) (snd (handleEditClick blankOrder initial)))
       = snd (handleEditClick blankOrder initial)"
proof -
  let ?st1 = "snd (onClickAddNew (initial\<lparr>orders := [order_x]\<rparr>))"
  let ?st2 = "snd (handleEditClick blankOrder initial)"
  have n: "editingOrder ?st1 = None"
    by (simp add: onClickAddNew_def)
  have e: "editingOrder ?st2 = Some blankOrder"
    by (simp add: handleEditClick_def)
  have b: "order_id blankOrder = []"
    by (simp add: blankOrder_def)
  from e b have h2: "editingOrder ?st2 = None \<or> (\<exists>eo. editingOrder ?st2 = Some eo \<and> order_id eo = [])"
    by blast
  from n have h1: "editingOrder ?st1 = None \<or> (\<exists>eo. editingOrder ?st1 = Some eo \<and> order_id eo = [])"
    by (rule disjI1)
  note r1 = C9_update_without_target_does_nothing [OF h1, of "Resolved order_y"]
  note r2 = C9_update_without_target_does_nothing [OF h2, of "Resolved order_y"]
  from n r1 [THEN conjunct1] r1 [THEN conjunct2, THEN conjunct1] e b r2 [THEN conjunct1]
  show ?thesis by (intro conjI)
qed

text \<open>
  C10. The conversion never drops an element: on a non-empty text it yields one element
  more than the text has commas, so neighbouring and trailing commas give empty strings.
\<close>

theorem C10_conversion_keeps_every_piece:
  "s \<noteq> [] \<Longrightarrow> cartItems_in fs = Some s \<Longrightarrow>
     length (cartItemsArray fs) = count_list s comma + 1"
  by (simp add: cartItemsArray_def truthy_def length_js_split)

theorem C10_conversion_keeps_every_piece_witness:
  "utf16 ''A,,B'' \<noteq> []
   \<and> cartItems_in (emptyForm\<lparr>cartItems_in := Some (utf16 ''A,,B'')\<rparr>) = Some (utf16 ''A,,B'')
   \<and> length (cartItemsArray (emptyForm\<lparr>cartItems_in := Some (utf16 ''A,,B'')\<rparr>)) = 3
   \<and> cartItemsArray (emptyForm\<lparr>cartItems_in := Some (utf16 ''A,,B'')\<rparr>)
       = [utf16 ''A'', [], utf16 ''B'']
   \<and> cartItemsArray (emptyForm\<lparr>cartItems_in := Some (utf16 ''A,'')\<rparr>)
       = [utf16 ''A'', []]"
  using C10_conversion_keeps_every_piece
    [of "utf16 ''A,,B''" "emptyForm\<lparr>cartItems_in := Some (utf16 ''A,,B'')\<rparr>"]
  by (simp add: utf16_def comma_def cartItemsArray_def truthy_def trim_def isWhiteSpace_def)

end
